theory Spec2Isabelle
  imports Main "HOL-Library.Word"
begin

section \<open>DHCP pool statistics of a Mikrotik router (main.go)\<close>

text \<open>
  The program asks a router for its enabled DHCP servers, and for each server with an
  address pool it asks for the ranges of the pool and for the addresses in use. It prints
  one row per server (text mode) or one JSON document (json mode).

  Go's \<open>int\<close> is modelled as a 64-bit word (the amd64 and arm64 ports): \<open>+\<close> and \<open>-\<close>
  wrap around, \<open>sint\<close> reads the signed value. A Go \<open>string\<close> is a sequence of bytes,
  here a \<open>char list\<close>.
\<close>

type_synonym go_int = "64 word"

subsection \<open>The standard library functions the program calls\<close>

text \<open>
  \<open>strings.Split(s, sep)\<close> of Go's standard library, for a separator of one byte (the
  program splits on \<open>","\<close>, \<open>"-"\<close> and \<open>"."\<close> only): the pieces of \<open>s\<close> between the
  separators. A string without the separator gives the one-element slice holding \<open>s\<close>,
  and that includes the empty string. The result is never empty, so the second case of
  the \<open>case\<close> below is never taken.
\<close>

fun Split :: "string \<Rightarrow> char \<Rightarrow> string list" where
  "Split [] sep = [[]]"
| "Split (c # cs) sep =
     (if c = sep then [] # Split cs sep
      else (case Split cs sep of
              p # ps \<Rightarrow> (c # p) # ps
            | [] \<Rightarrow> [[c]]))"

text \<open>
  \<open>strconv.Atoi(s)\<close> of Go's standard library, which is \<open>ParseInt(s, 10, 0)\<close> converted
  to \<open>int\<close>. \<open>ParseUint\<close> reads the digits into a \<open>uint64\<close>: a byte that is no decimal
  digit ends it with a syntax error and the value 0, a value beyond \<open>maxVal\<close> ends it
  with a range error and the value \<open>maxVal\<close>. The accumulator is a \<open>nat\<close> below \<open>2 ^ 64\<close>;
  the two overflow tests of the library (\<open>n >= cutoff\<close> before the multiplication, and
  \<open>n1 < n || n1 > maxVal\<close> after the addition) are written on the unwrapped value.
\<close>

datatype num_error = ErrSyntax | ErrRange

definition is_digit :: "char \<Rightarrow> bool" where
  "is_digit c = (48 \<le> (of_char c :: nat) \<and> (of_char c :: nat) \<le> 57)"

definition digit_val :: "char \<Rightarrow> nat" where
  "digit_val c = of_char c - 48"

definition maxVal :: nat where
  "maxVal = 2 ^ 64 - 1"

definition cutoff :: nat where
  "cutoff = maxVal div 10 + 1"

fun ParseUint_loop :: "nat \<Rightarrow> string \<Rightarrow> nat \<times> num_error option" where
  "ParseUint_loop n [] = (n, None)"
| "ParseUint_loop n (c # cs) =
     (if \<not> is_digit c then (0, Some ErrSyntax)
      else if n \<ge> cutoff then (maxVal, Some ErrRange)
      else (let n1 = n * 10 + digit_val c
            in if n1 > maxVal then (maxVal, Some ErrRange)
               else ParseUint_loop n1 cs))"

definition ParseUint :: "string \<Rightarrow> nat \<times> num_error option" where
  "ParseUint s = (if s = [] then (0, Some ErrSyntax) else ParseUint_loop 0 s)"

definition ParseInt :: "string \<Rightarrow> int \<times> num_error option" where
  "ParseInt s =
     (if s = [] then (0, Some ErrSyntax)
      else
        (let neg = (hd s = CHR ''-'');
             s1 = (if hd s = CHR ''+'' \<or> hd s = CHR ''-'' then tl s else s);
             (un, err) = ParseUint s1
         in if err = Some ErrSyntax then (0, err)
            else if \<not> neg \<and> un \<ge> 2 ^ 63 then (2 ^ 63 - 1, Some ErrRange)
            else if neg \<and> un > 2 ^ 63 then (- (2 ^ 63), Some ErrRange)
            else (if neg then - int un else int un, None)))"

definition Atoi :: "string \<Rightarrow> go_int \<times> num_error option" where
  "Atoi s = (let (i, err) = ParseInt s in (word_of_int i, err))"

text \<open>
  Reading a \<open>map[string]string\<close> at a key it does not hold gives the empty string.
\<close>

type_synonym subpair = "string \<rightharpoonup> string"

definition at_key :: "subpair \<Rightarrow> string \<Rightarrow> string" where
  "at_key m k = (case m k of None \<Rightarrow> [] | Some v \<Rightarrow> v)"

subsection \<open>Errors\<close>

text \<open>
  A call of the program ends in one of two bad ways: a query of the router returns an
  error value (with its message), or an index expression reads a slice out of range and
  the Go runtime panics.
\<close>

datatype error = QueryError string | IndexOutOfRange

subsection \<open>Data\<close>

record PoolStat =
  Interface :: string
  Used :: go_int
  Size :: go_int

record IPRange =
  Min_addr :: string
  Max_addr :: string

record Pair =
  Key :: string
  Value :: string
  Op :: string

record Query =
  Pairs :: "Pair list"
  Proplist :: "string list"

text \<open>
  The client of the router: a query takes the state of the connection, a path and the
  query, and returns the reply (the list \<open>SubPairs\<close>) or an error message, with the next
  state of the connection. Two queries of the same pool may thus get different replies.
\<close>

type_synonym 'r client = "'r \<Rightarrow> string \<Rightarrow> Query \<Rightarrow> (string + subpair list) \<times> 'r"

subsection \<open>getPoolUsed\<close>

definition used_query :: "string \<Rightarrow> Query" where
  "used_query pool =
     \<lparr>Pairs = [\<lparr>Key = ''pool'', Value = pool, Op = ''=''\<rparr>], Proplist = [''.id,address'']\<rparr>"

definition getPoolUsed :: "'r client \<Rightarrow> 'r \<Rightarrow> string \<Rightarrow> (string + string list) \<times> 'r" where
  "getPoolUsed query r pool =
     (case query r ''/ip/pool/used/print'' (used_query pool) of
        (Inl err, r1) \<Rightarrow> (Inl err, r1)
      | (Inr res, r1) \<Rightarrow> (Inr (map (\<lambda>s. at_key s ''address'') res), r1))"

subsection \<open>getPoolRange\<close>

text \<open>
  The loop over the comma-separated pieces of the field \<open>ranges\<close>: \<open>rng[0]\<close> always
  exists, \<open>rng[1]\<close> panics when the piece holds no \<open>-\<close>.
\<close>

fun range_loop :: "IPRange list \<Rightarrow> string list \<Rightarrow> error + IPRange list" where
  "range_loop ranges [] = Inr ranges"
| "range_loop ranges (p # ps) =
     (let rng = Split p CHR ''-''
      in if length rng \<le> 1 then Inl IndexOutOfRange
         else range_loop (ranges @ [\<lparr>Min_addr = rng ! 0, Max_addr = rng ! 1\<rparr>]) ps)"

definition pool_query :: "string \<Rightarrow> Query" where
  "pool_query pool =
     \<lparr>Pairs = [\<lparr>Key = ''name'', Value = pool, Op = ''=''\<rparr>], Proplist = [''.id,ranges'']\<rparr>"

text \<open>What \<open>getPoolRange\<close> does with the reply of the router, from line 70 on.\<close>

definition ranges_of_reply :: "subpair list \<Rightarrow> error + IPRange list" where
  "ranges_of_reply res =
     (if length res = 0 then Inr []
      else (let sp = res ! 0
            in if at_key sp ''ranges'' = [] then Inr []
               else range_loop [] (Split (at_key sp ''ranges'') CHR '','')))"

definition getPoolRange :: "'r client \<Rightarrow> 'r \<Rightarrow> string \<Rightarrow> (error + IPRange list) \<times> 'r" where
  "getPoolRange query r pool =
     (case query r ''/ip/pool/print'' (pool_query pool) of
        (Inl err, r1) \<Rightarrow> (Inl (QueryError err), r1)
      | (Inr res, r1) \<Rightarrow> (ranges_of_reply res, r1))"

subsection \<open>main: the size of a pool\<close>

text \<open>
  The loop of \<open>main\<close> that adds up the size of a pool. \<open>minparts[3]\<close> and \<open>maxparts[3]\<close>
  panic when an address has fewer than four pieces between dots; the error of \<open>Atoi\<close> is
  dropped and its value used.
\<close>

fun size_loop :: "go_int \<Rightarrow> IPRange list \<Rightarrow> error + go_int" where
  "size_loop sz [] = Inr sz"
| "size_loop sz (l # ls) =
     (let minparts = Split (Min_addr l) CHR ''.''
      in if length minparts \<le> 3 then Inl IndexOutOfRange
         else (let mn = fst (Atoi (minparts ! 3));
                   maxparts = Split (Max_addr l) CHR ''.''
               in if length maxparts \<le> 3 then Inl IndexOutOfRange
                  else (let mx = fst (Atoi (maxparts ! 3))
                        in size_loop (sz + (mx - mn)) ls)))"

subsection \<open>main: output\<close>

text \<open>
  What the program writes is kept as the calls it makes, with their arguments: the
  format string of a \<open>Printf\<close> and the values it is given. A JSON document made by
  \<open>json.Marshal\<close> is kept as a value.
\<close>

datatype json = JNull | JString string | JInt int | JArray "json list" | JObject "(string \<times> json) list"

datatype arg = S string | D go_int | B json

datatype call = Println string | Printf string "arg list" | Write json

datatype status = Returned | Exited nat | Panicked

record outcome =
  stdout :: "call list"
  stderr :: "call list"
  status :: status

text \<open>
  \<open>json.Marshal\<close> of Go's standard library on the two values the program gives it. A
  struct is an object of its exported fields; a nil slice is \<open>null\<close>. The slice \<open>pools\<close>
  is nil until the first \<open>append\<close> and never empty after it, so the empty list stands for
  the nil slice.
\<close>

definition Marshal_jsError :: "string \<Rightarrow> json" where
  "Marshal_jsError msg = JObject [(''Error'', JString msg)]"

definition Marshal_PoolStat :: "PoolStat \<Rightarrow> json" where
  "Marshal_PoolStat p =
     JObject [(''Interface'', JString (Interface p)),
              (''Used'', JInt (sint (Used p))),
              (''Size'', JInt (sint (Size p)))]"

definition Marshal_pools :: "PoolStat list \<Rightarrow> json" where
  "Marshal_pools pools = (if pools = [] then JNull else JArray (map Marshal_PoolStat pools))"

text \<open>\<open>jserror\<close> writes the error object to the error stream and exits with status 1.\<close>

definition jserror :: "call list \<Rightarrow> string \<Rightarrow> outcome" where
  "jserror out msg = \<lparr>stdout = out, stderr = [Write (Marshal_jsError msg)], status = Exited 1\<rparr>"

text \<open>The text-mode exit: one \<open>Fprintf\<close> to the error stream, then \<open>os.Exit(1)\<close>.\<close>

definition fatal :: "call list \<Rightarrow> string \<Rightarrow> arg list \<Rightarrow> outcome" where
  "fatal out fmt args = \<lparr>stdout = out, stderr = [Printf fmt args], status = Exited 1\<rparr>"

text \<open>
  A runtime panic ends the program; the trace the Go runtime prints on the error stream
  is not modelled.
\<close>

definition panic :: "call list \<Rightarrow> outcome" where
  "panic out = \<lparr>stdout = out, stderr = [], status = Panicked\<rparr>"

subsection \<open>main: the loop over the DHCP servers\<close>

text \<open>The format strings, with the tab as \<open>CHR 0x09\<close> and the newline as \<open>CHR 0x0A\<close>.\<close>

definition header_line :: string where
  "header_line = ''Interface'' @ [CHR 0x09] @ ''Used'' @ [CHR 0x09] @ ''Free''"

definition row_format :: string where
  "row_format = ''%s'' @ [CHR 0x09] @ ''%12d'' @ [CHR 0x09] @ ''%4d'' @ [CHR 0x0A]"

definition row :: "PoolStat \<Rightarrow> call" where
  "row p = Printf row_format [S (Interface p), D (Used p), D (Size p - Used p)]"

text \<open>
  After the loop: json mode prints the document, text mode has printed already.
  \<open>json.Marshal\<close> does not fail on a slice of \<open>PoolStat\<close>, so the branch of \<open>main\<close>
  that reports an encoding error is never taken.
\<close>

definition finish :: "bool \<Rightarrow> call list \<Rightarrow> PoolStat list \<Rightarrow> outcome" where
  "finish js out pools =
     \<lparr>stdout = (if js then out @ [Printf ''%s'' [B (Marshal_pools pools)]] else out),
      stderr = [], status = Returned\<rparr>"

fun servers_loop ::
  "'r client \<Rightarrow> bool \<Rightarrow> 'r \<Rightarrow> call list \<Rightarrow> PoolStat list \<Rightarrow> subpair list \<Rightarrow> outcome" where
  "servers_loop query js r out pools [] = finish js out pools"
| "servers_loop query js r out pools (pair # rest) =
     (let poolName = at_key pair ''address-pool''
      in if poolName = [] then servers_loop query js r out pools rest
         else (case getPoolRange query r poolName of
             (Inl (QueryError err), r1) \<Rightarrow>
               (if js then jserror out (''Error fetching pool information for pool '' @ poolName)
                else fatal out (''Error fetching pool information: %s'' @ [CHR 0x0A]) [S err])
           | (Inl IndexOutOfRange, r1) \<Rightarrow> panic out
           | (Inr pool, r1) \<Rightarrow>
               (case size_loop 0 pool of
                  Inl e \<Rightarrow> panic out
                | Inr sz \<Rightarrow>
                    (case getPoolUsed query r1 poolName of
                       (Inl err, r2) \<Rightarrow>
                         (if js then jserror out (''Error fetching pool usage for pool '' @ poolName)
                          else fatal out (''Error fetching pool usage for pool %s: %s'' @ [CHR 0x0A])
                                 [S poolName, S err])
                     | (Inr used, r2) \<Rightarrow>
                         (let p = \<lparr>Interface = at_key pair ''interface'',
                                   Used = of_nat (length used), Size = sz\<rparr>
                          in servers_loop query js r2
                               (if js then out else out @ [row p]) (pools @ [p]) rest)))))"

subsection \<open>main, from the query of the DHCP servers on\<close>

text \<open>
  The flags, the credentials and the connection come before; \<open>js\<close> is the flag
  \<open>-json\<close> and \<open>r\<close> the connected client.
\<close>

definition servers_query :: Query where
  "servers_query =
     \<lparr>Pairs = [\<lparr>Key = ''disabled'', Value = ''no'', Op = ''=''\<rparr>],
      Proplist = [''.id,address-pool,interface'']\<rparr>"

definition main :: "'r client \<Rightarrow> bool \<Rightarrow> 'r \<Rightarrow> outcome" where
  "main query js r =
     (case query r ''/ip/dhcp-server/getall'' servers_query of
        (Inl err, r1) \<Rightarrow>
          (if js then jserror [] ''Error fetching list of dhcp interfaces from router''
           else fatal [] (''Error fetching list of dhcp interfaces: %s'' @ [CHR 0x0A]) [S err])
      | (Inr res, r1) \<Rightarrow>
          servers_loop query js r1 (if js then [] else [Println header_line]) [] res)"

subsection \<open>The capacity of a pool, from its field of ranges\<close>

text \<open>
  \<open>getPoolRange\<close> on a record with the field \<open>ranges\<close>, followed by the size loop of
  \<open>main\<close>: what the program computes as the size of a pool whose first record holds the
  given field.
\<close>

definition capacity_of_field :: "string \<Rightarrow> error + go_int" where
  "capacity_of_field field =
     (case ranges_of_reply [[''ranges'' \<mapsto> field]] of
        Inl e \<Rightarrow> Inl e
      | Inr pool \<Rightarrow> size_loop 0 pool)"

subsection \<open>Closed forms of the two loops\<close>

text \<open>
  The range a piece of the field becomes, the contribution of a range to the size, and
  the shape a piece needs for both index expressions to be in range.
\<close>

definition mk_range :: "string \<Rightarrow> IPRange" where
  "mk_range p = \<lparr>Min_addr = Split p CHR ''-'' ! 0, Max_addr = Split p CHR ''-'' ! 1\<rparr>"

definition span :: "IPRange \<Rightarrow> go_int" where
  "span l = fst (Atoi (Split (Max_addr l) CHR ''.'' ! 3)) - fst (Atoi (Split (Min_addr l) CHR ''.'' ! 3))"

definition four_parts :: "IPRange \<Rightarrow> bool" where
  "four_parts l =
     (4 \<le> length (Split (Min_addr l) CHR ''.'') \<and> 4 \<le> length (Split (Max_addr l) CHR ''.''))"

definition shaped :: "string \<Rightarrow> bool" where
  "shaped p = (2 \<le> length (Split p CHR ''-'') \<and> four_parts (mk_range p))"

subsection \<open>Valid range fields\<close>

text \<open>
  A valid field is a comma-separated list of pairs \<open>low-high\<close> of dotted quads; an octet
  is a non-empty string of decimal digits with a value of at most 255. The capacity the
  specification asks for is the sum, over the pairs, of the last octet of the high
  address minus the last octet of the low address.
\<close>

definition dec_value :: "string \<Rightarrow> nat" where
  "dec_value s = foldl (\<lambda>n c. n * 10 + digit_val c) 0 s"

definition is_octet :: "string \<Rightarrow> bool" where
  "is_octet s = (s \<noteq> [] \<and> (\<forall>c \<in> set s. is_digit c) \<and> dec_value s \<le> 255)"

definition is_dotted_quad :: "string \<Rightarrow> bool" where
  "is_dotted_quad a =
     (length (Split a CHR ''.'') = 4 \<and> (\<forall>x \<in> set (Split a CHR ''.''). is_octet x))"

definition is_range_segment :: "string \<Rightarrow> bool" where
  "is_range_segment p =
     (length (Split p CHR ''-'') = 2 \<and> (\<forall>a \<in> set (Split p CHR ''-''). is_dotted_quad a))"

definition valid_range_field :: "string \<Rightarrow> bool" where
  "valid_range_field f = (\<forall>p \<in> set (Split f CHR '',''). is_range_segment p)"

definition last_octet :: "string \<Rightarrow> int" where
  "last_octet a = int (dec_value (last (Split a CHR ''.'')))"

definition segment_span :: "string \<Rightarrow> int" where
  "segment_span p =
     last_octet (last (Split p CHR ''-'')) - last_octet (hd (Split p CHR ''-''))"

definition spec_capacity :: "string \<Rightarrow> int" where
  "spec_capacity f = sum_list (map segment_span (Split f CHR '',''))"

subsection \<open>Routers for the examples\<close>

text \<open>
  A router that answers from three tables: the list of DHCP servers, the records of a
  pool by name and the addresses in use by pool name. The connection has no state.
\<close>

definition table_router ::
  "(string + subpair list) \<Rightarrow> (string \<Rightarrow> string + subpair list) \<Rightarrow>
   (string \<Rightarrow> string + subpair list) \<Rightarrow> unit client" where
  "table_router servers pools used r path q =
     (if path = ''/ip/dhcp-server/getall'' then (servers, r)
      else if path = ''/ip/pool/print'' then (pools (Value (hd (Pairs q))), r)
      else (used (Value (hd (Pairs q))), r))"

definition server :: "string \<Rightarrow> string \<Rightarrow> subpair" where
  "server iface pool = [''interface'' \<mapsto> iface, ''address-pool'' \<mapsto> pool]"

definition addresses :: "string list \<Rightarrow> string + subpair list" where
  "addresses as = Inr (map (\<lambda>a. [''address'' \<mapsto> a]) as)"


text \<open>One server without a pool, and one whose pool the router does not know.\<close>

definition router_D :: "unit client" where
  "router_D =
     table_router (Inr [server ''ether2'' [], server ''ether3'' ''guest-pool''])
       (\<lambda>name. if name = ''guest-pool'' then Inr []
               else Inr [[''ranges'' \<mapsto> []], [''ranges'' \<mapsto> ''10.0.0.10-10.0.0.20'']])
       (\<lambda>name. addresses [''10.0.0.11'', ''10.0.0.11''])"

text \<open>One server without a pool.\<close>

definition router_N :: "unit client" where
  "router_N = table_router (Inr [server ''ether2'' []]) (\<lambda>name. Inr []) (\<lambda>name. Inr [])"

text \<open>A pool whose low address ends in the largest \<open>int\<close>, with two addresses in use.\<close>

definition router_W :: "unit client" where
  "router_W =
     table_router (Inr [server ''ether1'' ''wide-pool''])
       (\<lambda>name. Inr [[''ranges'' \<mapsto> ''0.0.0.9223372036854775807-0.0.0.0'']])
       (\<lambda>name. addresses [''0.0.0.1'', ''0.0.0.2''])"

text \<open>
  Two malformed pools: the first has a last octet that is no number, the second has no
  \<open>-\<close> in its only range.
\<close>

definition router_M :: "unit client" where
  "router_M =
     table_router (Inr [server ''ether1'' ''octet-pool'', server ''ether2'' ''dash-pool''])
       (\<lambda>name. if name = ''octet-pool'' then Inr [[''ranges'' \<mapsto> ''10.0.0.x-10.0.0.20'']]
               else Inr [[''ranges'' \<mapsto> ''10.0.0.10'']])
       (\<lambda>name. addresses [''10.0.0.11''])"


lemmas run_defs =
  main_def getPoolRange_def getPoolUsed_def ranges_of_reply_def at_key_def
  table_router_def server_def addresses_def servers_query_def pool_query_def used_query_def
  jserror_def fatal_def panic_def finish_def row_def Marshal_pools_def Marshal_jsError_def
  Marshal_PoolStat_def

lemmas atoi_defs =
  Atoi_def ParseInt_def ParseUint_def is_digit_def digit_val_def maxVal_def cutoff_def

lemmas valid_defs =
  valid_range_field_def is_range_segment_def is_dotted_quad_def is_octet_def dec_value_def
  is_digit_def digit_val_def spec_capacity_def segment_span_def last_octet_def

section \<open>Properties\<close>

subsection \<open>Signed reading of a Go int\<close>

lemma sint_go_int:
  "- (2 ^ 63) \<le> i \<Longrightarrow> i < 2 ^ 63 \<Longrightarrow> sint (word_of_int i :: go_int) = i"
  by (simp add: sint_sbintrunc' signed_take_bit_int_eq_self)

lemma sint_go_int_of_nat:
  "n < 2 ^ 63 \<Longrightarrow> sint (of_nat n :: go_int) = int n"
  using sint_go_int [of "int n"] by simp

lemma sint_go_int_minus:
  fixes a b :: go_int
  assumes "- (2 ^ 63) \<le> sint a - sint b" and "sint a - sint b < 2 ^ 63"
  shows "sint (a - b) = sint a - sint b"
  using assms by (simp add: sint_word_ariths signed_take_bit_int_eq_self)

subsection \<open>Atoi on digits and on other bytes\<close>

lemma foldl_dec_mono: "n \<le> foldl (\<lambda>n c. n * 10 + digit_val c) n cs"
proof (induction cs arbitrary: n)
  case Nil
  show ?case by simp
next
  case (Cons c cs)
  have "n \<le> n * 10 + digit_val c" by simp
  also have "\<dots> \<le> foldl (\<lambda>n c. n * 10 + digit_val c) (n * 10 + digit_val c) cs"
    by (rule Cons.IH)
  finally show ?case by simp
qed

lemma ParseUint_loop_digits:
  "\<forall>c \<in> set cs. is_digit c \<Longrightarrow> foldl (\<lambda>n c. n * 10 + digit_val c) n cs \<le> maxVal \<Longrightarrow>
   ParseUint_loop n cs = (foldl (\<lambda>n c. n * 10 + digit_val c) n cs, None)"
proof (induction cs arbitrary: n)
  case Nil
  show ?case by simp
next
  case (Cons c cs)
  let ?n1 = "n * 10 + digit_val c"
  have "?n1 \<le> foldl (\<lambda>n c. n * 10 + digit_val c) ?n1 cs" by (rule foldl_dec_mono)
  with Cons.prems(2) have n1: "?n1 \<le> maxVal" by simp
  then have "n < cutoff" by (simp add: cutoff_def maxVal_def)
  with n1 Cons show ?case by (simp add: Let_def)
qed

lemma sign_not_digit: "is_digit c \<Longrightarrow> c \<noteq> CHR ''+'' \<and> c \<noteq> CHR ''-''"
  by (auto simp: is_digit_def)

lemma Atoi_digits:
  assumes "s \<noteq> []" and "\<forall>c \<in> set s. is_digit c" and "dec_value s < 2 ^ 63"
  shows "Atoi s = (of_nat (dec_value s), None)"
proof -
  have "is_digit (hd s)" using assms(1,2) by simp
  then have h: "hd s \<noteq> CHR ''+''" "hd s \<noteq> CHR ''-''" using sign_not_digit by blast+
  have "foldl (\<lambda>n c. n * 10 + digit_val c) 0 s \<le> maxVal"
    using assms(3) by (simp add: dec_value_def maxVal_def)
  then have "ParseUint s = (dec_value s, None)"
    using assms(1,2) ParseUint_loop_digits [of s 0] by (simp add: ParseUint_def dec_value_def)
  then show ?thesis
    using assms(1,3) h by (simp add: Atoi_def ParseInt_def)
qed

lemma Atoi_octet: "is_octet s \<Longrightarrow> Atoi s = (of_nat (dec_value s), None)"
  by (rule Atoi_digits) (simp_all add: is_octet_def)

lemma Atoi_syntax_zero: "snd (Atoi s) = Some ErrSyntax \<Longrightarrow> fst (Atoi s) = 0"
  by (auto simp: Atoi_def ParseInt_def Let_def split: prod.splits if_splits)

lemma digit_val_le: "is_digit c \<Longrightarrow> digit_val c \<le> 9"
  unfolding is_digit_def digit_val_def by arith

lemma ParseUint_loop_syntax:
  "\<exists>x \<in> set cs. \<not> is_digit x \<Longrightarrow> n < 10 ^ k \<Longrightarrow> k + length cs \<le> 19 \<Longrightarrow>
   ParseUint_loop n cs = (0, Some ErrSyntax)"
proof (induction cs arbitrary: n k)
  case Nil
  then show ?case by simp
next
  case (Cons c cs)
  show ?case
  proof (cases "is_digit c")
    case False
    then show ?thesis by simp
  next
    case True
    from Cons.prems(3) have k: "Suc k \<le> 19" by simp
    have "(10::nat) ^ Suc k \<le> 10 ^ 19" using k by (intro power_increasing) simp_all
    moreover have "n * 10 + digit_val c < 10 ^ Suc k"
      using Cons.prems(2) digit_val_le [OF True] by simp
    ultimately have n1: "n * 10 + digit_val c < 10 ^ 19" by linarith
    then have "n < cutoff" "\<not> n * 10 + digit_val c > maxVal"
      by (simp_all add: cutoff_def maxVal_def)
    moreover have "ParseUint_loop (n * 10 + digit_val c) cs = (0, Some ErrSyntax)"
    proof (rule Cons.IH)
      show "\<exists>x \<in> set cs. \<not> is_digit x" using Cons.prems(1) True by auto
      show "n * 10 + digit_val c < 10 ^ Suc k" by fact
      show "Suc k + length cs \<le> 19" using Cons.prems(3) by simp
    qed
    ultimately show ?thesis using True by (simp add: Let_def)
  qed
qed

lemma Atoi_syntax:
  assumes "s = [] \<or> length s \<le> 19 \<and> (\<exists>x \<in> set s. \<not> is_digit x \<and> x \<noteq> CHR ''+'' \<and> x \<noteq> CHR ''-'')"
  shows "Atoi s = (0, Some ErrSyntax)"
proof (cases "s = []")
  case True
  then show ?thesis by (simp add: Atoi_def ParseInt_def)
next
  case False
  with assms obtain x where x: "x \<in> set s" "\<not> is_digit x" "x \<noteq> CHR ''+''" "x \<noteq> CHR ''-''"
    and len: "length s \<le> 19" by blast
  define b where "b = (if hd s = CHR ''+'' \<or> hd s = CHR ''-'' then tl s else s)"
  have "x \<in> set b"
    using x False by (cases s) (auto simp: b_def)
  moreover have "length b \<le> 19" using len unfolding b_def by (cases s) auto
  ultimately have "ParseUint_loop 0 b = (0, Some ErrSyntax)"
    using x(2) ParseUint_loop_syntax [of b 0 0] by auto
  then have "ParseUint b = (0, Some ErrSyntax)" by (simp add: ParseUint_def)
  then show ?thesis
    using False by (simp add: Atoi_def ParseInt_def b_def)
qed

subsection \<open>Splitting, and the closed forms of the two loops\<close>

lemma Split_not_Nil: "Split s sep \<noteq> []"
  by (induction s) (auto split: list.splits)

lemma Split_Cons:
  "Split (c # cs) sep =
     (if c = sep then [] # Split cs sep else (c # hd (Split cs sep)) # tl (Split cs sep))"
  using Split_not_Nil [of cs sep] by (cases "Split cs sep") simp_all

lemma length_Split: "length (Split s sep) = Suc (length (filter (\<lambda>c. c = sep) s))"
  by (induction s) (auto simp: Split_not_Nil split: list.splits)

lemma length_Split_le: "length (Split s sep) \<le> Suc (length s)"
  by (simp add: length_Split)

lemma Split_one_iff: "length (Split s sep) \<le> 1 \<longleftrightarrow> sep \<notin> set s"
  by (auto simp: length_Split filter_empty_conv)

lemma Split_append:
  "sep \<notin> set a \<Longrightarrow> Split (a @ sep # b) sep = a # Split b sep"
  by (induction a) (auto simp: Split_not_Nil split: list.splits)

lemma Split_no_sep: "sep \<notin> set s \<Longrightarrow> Split s sep = [s]"
  by (induction s) auto

lemma range_loop_ok:
  "\<forall>p \<in> set ps. 2 \<le> length (Split p CHR ''-'') \<Longrightarrow>
   range_loop acc ps = Inr (acc @ map mk_range ps)"
  by (induction ps arbitrary: acc) (simp_all add: Let_def mk_range_def)

lemma range_loop_fail:
  "\<exists>p \<in> set ps. length (Split p CHR ''-'') \<le> 1 \<Longrightarrow>
   range_loop acc ps = Inl IndexOutOfRange"
  by (induction ps arbitrary: acc) (auto simp: Let_def)

lemma size_loop_ok:
  "\<forall>l \<in> set ls. four_parts l \<Longrightarrow> size_loop sz ls = Inr (sz + sum_list (map span ls))"
  by (induction ls arbitrary: sz) (simp_all add: Let_def four_parts_def span_def add.assoc)

lemma size_loop_fail:
  "\<exists>l \<in> set ls. \<not> four_parts l \<Longrightarrow> size_loop sz ls = Inl IndexOutOfRange"
  by (induction ls arbitrary: sz) (auto simp: Let_def four_parts_def)

lemma capacity_of_field_unfold:
  "f \<noteq> [] \<Longrightarrow>
   capacity_of_field f =
     (case range_loop [] (Split f CHR '','') of
        Inl e \<Rightarrow> Inl e
      | Inr pool \<Rightarrow> size_loop 0 pool)"
  by (simp add: capacity_of_field_def ranges_of_reply_def at_key_def)

lemma capacity_of_field_ok:
  assumes "f \<noteq> []" and "\<forall>p \<in> set (Split f CHR '',''). shaped p"
  shows "capacity_of_field f = Inr (sum_list (map (\<lambda>p. span (mk_range p)) (Split f CHR '','')))"
proof -
  have "range_loop [] (Split f CHR '','') = Inr (map mk_range (Split f CHR '',''))"
    using assms(2) range_loop_ok [of "Split f CHR '',''" "[]"] by (simp add: shaped_def)
  moreover have "size_loop 0 (map mk_range (Split f CHR '','')) =
      Inr (0 + sum_list (map span (map mk_range (Split f CHR '',''))))"
    using assms(2) by (intro size_loop_ok) (simp add: shaped_def)
  ultimately show ?thesis
    using assms(1) by (simp add: capacity_of_field_unfold comp_def)
qed

lemma capacity_of_field_fail:
  assumes "f \<noteq> []" and "\<exists>p \<in> set (Split f CHR '',''). \<not> shaped p"
  shows "capacity_of_field f = Inl IndexOutOfRange"
proof (cases "\<exists>p \<in> set (Split f CHR '',''). length (Split p CHR ''-'') \<le> 1")
  case True
  then show ?thesis
    using assms(1) by (simp add: capacity_of_field_unfold range_loop_fail)
next
  case False
  then have "\<forall>p \<in> set (Split f CHR '',''). 2 \<le> length (Split p CHR ''-'')"
    by (auto simp: not_le)
  then have r: "range_loop [] (Split f CHR '','') = Inr (map mk_range (Split f CHR '',''))"
    using range_loop_ok [of "Split f CHR '',''" "[]"] by simp
  from assms(2) False have "\<exists>l \<in> set (map mk_range (Split f CHR '','')). \<not> four_parts l"
    by (auto simp: shaped_def not_le)
  then have "size_loop 0 (map mk_range (Split f CHR '','')) = Inl IndexOutOfRange"
    by (rule size_loop_fail)
  with r show ?thesis
    using assms(1) by (simp add: capacity_of_field_unfold)
qed

lemma capacity_of_field_empty: "capacity_of_field [] = Inr 0"
  by (simp add: capacity_of_field_def ranges_of_reply_def at_key_def)

subsection \<open>The capacity of a valid field\<close>

lemma is_range_segment_parts:
  assumes "is_range_segment p"
  shows "length (Split p CHR ''-'') = 2"
    and "hd (Split p CHR ''-'') = Split p CHR ''-'' ! 0"
    and "last (Split p CHR ''-'') = Split p CHR ''-'' ! 1"
    and "is_dotted_quad (Split p CHR ''-'' ! 0)"
    and "is_dotted_quad (Split p CHR ''-'' ! 1)"
proof -
  show l: "length (Split p CHR ''-'') = 2" using assms by (simp add: is_range_segment_def)
  then have ne: "Split p CHR ''-'' \<noteq> []" by auto
  show "hd (Split p CHR ''-'') = Split p CHR ''-'' ! 0" using ne by (simp add: hd_conv_nth)
  show "last (Split p CHR ''-'') = Split p CHR ''-'' ! 1" using ne l by (simp add: last_conv_nth)
  have "Split p CHR ''-'' ! 0 \<in> set (Split p CHR ''-'')" using l by (intro nth_mem) simp
  then show "is_dotted_quad (Split p CHR ''-'' ! 0)" using assms by (simp add: is_range_segment_def)
  have "Split p CHR ''-'' ! 1 \<in> set (Split p CHR ''-'')" using l by (intro nth_mem) simp
  then show "is_dotted_quad (Split p CHR ''-'' ! 1)" using assms by (simp add: is_range_segment_def)
qed

lemma is_dotted_quad_last:
  assumes "is_dotted_quad a"
  shows "length (Split a CHR ''.'') = 4"
    and "last (Split a CHR ''.'') = Split a CHR ''.'' ! 3"
    and "is_octet (Split a CHR ''.'' ! 3)"
proof -
  show l: "length (Split a CHR ''.'') = 4" using assms by (simp add: is_dotted_quad_def)
  then have ne: "Split a CHR ''.'' \<noteq> []" by auto
  show "last (Split a CHR ''.'') = Split a CHR ''.'' ! 3" using ne l by (simp add: last_conv_nth)
  have "Split a CHR ''.'' ! 3 \<in> set (Split a CHR ''.'')" using l by (intro nth_mem) simp
  then show "is_octet (Split a CHR ''.'' ! 3)" using assms by (simp add: is_dotted_quad_def)
qed

lemma dotted_quad_octet:
  assumes "is_dotted_quad a"
  shows "fst (Atoi (Split a CHR ''.'' ! 3)) = word_of_int (last_octet a)"
    and "0 \<le> last_octet a" and "last_octet a \<le> 255"
  using is_dotted_quad_last [OF assms] Atoi_octet [of "Split a CHR ''.'' ! 3"]
  by (simp_all add: last_octet_def is_octet_def)

lemma is_range_segment_shaped: "is_range_segment p \<Longrightarrow> shaped p"
  using is_range_segment_parts [of p]
  by (simp add: shaped_def four_parts_def mk_range_def is_dotted_quad_def)

lemma is_range_segment_span:
  assumes "is_range_segment p"
  shows "span (mk_range p) = word_of_int (segment_span p)"
    and "\<bar>segment_span p\<bar> \<le> 255"
proof -
  note ps = is_range_segment_parts [OF assms]
  note lo = dotted_quad_octet [OF ps(4)]
  note hi = dotted_quad_octet [OF ps(5)]
  show "span (mk_range p) = word_of_int (segment_span p)"
    using lo(1) hi(1) ps(2,3) by (simp add: span_def mk_range_def segment_span_def)
  show "\<bar>segment_span p\<bar> \<le> 255"
    using lo(2,3) hi(2,3) ps(2,3) by (simp add: segment_span_def)
qed

lemma sum_list_spans:
  "\<forall>p \<in> set ps. is_range_segment p \<Longrightarrow>
   sum_list (map (\<lambda>p. span (mk_range p)) ps) = word_of_int (sum_list (map segment_span ps)) \<and>
   \<bar>sum_list (map segment_span ps)\<bar> \<le> 255 * int (length ps)"
proof (induction ps)
  case Nil
  show ?case by simp
next
  case (Cons p ps)
  then have "is_range_segment p" by simp
  from is_range_segment_span [OF this] Cons show ?case by (auto simp: algebra_simps)
qed

lemma valid_range_field_not_empty: "valid_range_field f \<Longrightarrow> f \<noteq> []"
  by (auto simp: valid_range_field_def is_range_segment_def)

text \<open>
  Claim C1. For a valid range field the program computes, as the size of the pool, the
  sum over the comma-separated pairs of the last octet of the high address minus the
  last octet of the low address. The size is an \<open>int\<close>: it is the sum as a 64-bit
  value, and it is the sum itself for every field of fewer than \<open>2 ^ 48\<close> bytes, which
  is more than the address space of the process holds. The two fields of the
  specification give 10 and 20.
\<close>

theorem capacity_is_sum_of_spans:
  assumes "valid_range_field f"
  shows "capacity_of_field f = Inr (word_of_int (spec_capacity f)) \<and>
         (length f < 2 ^ 48 \<longrightarrow>
            sint (word_of_int (spec_capacity f) :: go_int) = spec_capacity f)"
proof -
  have segs: "\<forall>p \<in> set (Split f CHR '',''). is_range_segment p"
    using assms by (simp add: valid_range_field_def)
  then have "\<forall>p \<in> set (Split f CHR '',''). shaped p"
    using is_range_segment_shaped by blast
  then have "capacity_of_field f =
      Inr (sum_list (map (\<lambda>p. span (mk_range p)) (Split f CHR '','')))"
    using valid_range_field_not_empty [OF assms] by (intro capacity_of_field_ok)
  with sum_list_spans [OF segs]
  have c: "capacity_of_field f = Inr (word_of_int (spec_capacity f))"
    and b: "\<bar>spec_capacity f\<bar> \<le> 255 * int (length (Split f CHR '',''))"
    by (simp_all add: spec_capacity_def)
  have "sint (word_of_int (spec_capacity f) :: go_int) = spec_capacity f"
    if len: "length f < 2 ^ 48"
  proof -
    have "int (length (Split f CHR '','')) \<le> int (Suc (length f))"
      using length_Split_le [of f "CHR '',''"] by linarith
    also have "\<dots> \<le> 2 ^ 48" using len by simp
    finally have "\<bar>spec_capacity f\<bar> \<le> 255 * 2 ^ 48" using b by linarith
    then have "- (2 ^ 63) \<le> spec_capacity f" "spec_capacity f < 2 ^ 63" by simp_all
    then show ?thesis by (rule sint_go_int)
  qed
  with c show ?thesis by simp
qed

theorem capacity_is_sum_of_spans_witness:
  "capacity_of_field ''10.0.0.10-10.0.0.20'' = Inr 10 \<and>
   capacity_of_field ''10.0.0.10-10.0.0.20,10.0.0.30-10.0.0.40'' = Inr 20"
proof -
  have a: "valid_range_field ''10.0.0.10-10.0.0.20''"
    by (simp add: valid_defs)
  have a': "spec_capacity ''10.0.0.10-10.0.0.20'' = 10"
    by (simp add: valid_defs)
  have b: "valid_range_field ''10.0.0.10-10.0.0.20,10.0.0.30-10.0.0.40''"
    by (simp add: valid_defs)
  have b': "spec_capacity ''10.0.0.10-10.0.0.20,10.0.0.30-10.0.0.40'' = 20"
    by (simp add: valid_defs)
  show ?thesis
    using capacity_is_sum_of_spans [OF a] capacity_is_sum_of_spans [OF b]
    unfolding a' b' by simp
qed

subsection \<open>Malformed fields\<close>

text \<open>
  Claim C2, as stated: a malformed range field makes range parsing fail with a
  FormatError, and no capacity comes from malformed input. It fails for an octet that is
  no number: \<open>Atoi\<close> reports the error, \<open>main\<close> drops it, the octet counts as 0 and the
  field \<open>10.0.0.x-10.0.0.20\<close> gets the capacity 20. With the router \<open>router_M\<close> the row
  of that pool is printed; the pool without \<open>-\<close> then ends the run in a panic of the
  runtime, which is no error value of the program.
\<close>

theorem malformed_octet_counterexample:
  "capacity_of_field ''10.0.0.x-10.0.0.20'' = Inr 20 \<and>
   Atoi ''x'' = (0, Some ErrSyntax) \<and>
   main router_M False () =
     \<lparr>stdout = [Println header_line, Printf row_format [S ''ether1'', D 1, D 19]],
      stderr = [], status = Panicked\<rparr>"
  by (simp add: router_M_def capacity_of_field_def run_defs atoi_defs Let_def)

text \<open>
  Claim C2, amended. A field with a segment that holds no \<open>-\<close> makes range parsing
  panic on \<open>rng[1]\<close>: no capacity is produced, and \<open>main\<close> ends there in the panic.
  The index panic is the only way the capacity of a field fails, and it needs a segment
  of the wrong shape (no \<open>-\<close>, or fewer than four pieces between dots on one of the
  first two sides); an octet that is no number is never a failure.
\<close>

theorem malformed_ranges:
  "(f \<noteq> [] \<and> (\<exists>p \<in> set (Split f CHR '',''). CHR ''-'' \<notin> set p) \<longrightarrow>
      capacity_of_field f = Inl IndexOutOfRange) \<and>
   (capacity_of_field f = Inl e \<longrightarrow>
      e = IndexOutOfRange \<and> (\<exists>p \<in> set (Split f CHR '',''). \<not> shaped p)) \<and>
   (at_key pair ''address-pool'' \<noteq> [] \<and>
    fst (getPoolRange query r (at_key pair ''address-pool'')) = Inl IndexOutOfRange \<longrightarrow>
      servers_loop query js r out pools (pair # rest) = panic out)"
proof (intro conjI impI)
  assume a: "f \<noteq> [] \<and> (\<exists>p \<in> set (Split f CHR '',''). CHR ''-'' \<notin> set p)"
  then obtain p where p: "p \<in> set (Split f CHR '','')" "CHR ''-'' \<notin> set p" by blast
  from p(2) have "\<not> shaped p" by (simp add: shaped_def Split_no_sep)
  with p(1) have "\<exists>p \<in> set (Split f CHR '',''). \<not> shaped p" by blast
  with a show "capacity_of_field f = Inl IndexOutOfRange"
    by (intro capacity_of_field_fail) simp_all
next
  assume b: "capacity_of_field f = Inl e"
  have ne: "f \<noteq> []" using b capacity_of_field_empty by auto
  have ex: "\<exists>p \<in> set (Split f CHR '',''). \<not> shaped p"
  proof (rule ccontr)
    assume "\<not> (\<exists>p \<in> set (Split f CHR '',''). \<not> shaped p)"
    then have "\<forall>p \<in> set (Split f CHR '',''). shaped p" by blast
    from capacity_of_field_ok [OF ne this] b show False by simp
  qed
  from capacity_of_field_fail [OF ne ex] b show "e = IndexOutOfRange" by simp
  from ex show "\<exists>p \<in> set (Split f CHR '',''). \<not> shaped p" .
next
  assume c: "at_key pair ''address-pool'' \<noteq> [] \<and>
    fst (getPoolRange query r (at_key pair ''address-pool'')) = Inl IndexOutOfRange"
  then obtain r1 where
    "getPoolRange query r (at_key pair ''address-pool'') = (Inl IndexOutOfRange, r1)"
    by (cases "getPoolRange query r (at_key pair ''address-pool'')") auto
  with c show "servers_loop query js r out pools (pair # rest) = panic out"
    by (simp add: Let_def)
qed

theorem malformed_ranges_witness:
  "capacity_of_field ''10.0.0.10'' = Inl IndexOutOfRange \<and>
   \<not> shaped ''10.0.0.10'' \<and>
   servers_loop router_M True () [] [] [server ''ether2'' ''dash-pool''] = panic []"
proof -
  have a: "''10.0.0.10'' \<noteq> [] \<and>
           (\<exists>p \<in> set (Split ''10.0.0.10'' CHR '',''). CHR ''-'' \<notin> set p)"
    by simp
  have b: "at_key (server ''ether2'' ''dash-pool'') ''address-pool'' \<noteq> [] \<and>
    fst (getPoolRange router_M () (at_key (server ''ether2'' ''dash-pool'') ''address-pool''))
      = Inl IndexOutOfRange"
    by (simp add: router_M_def run_defs Let_def)
  show ?thesis
    using malformed_ranges [of "''10.0.0.10''" IndexOutOfRange "server ''ether2'' ''dash-pool''"
        router_M "()" True "[]" "[]" "[]"] a b
    by simp
qed

text \<open>
  Claim C8, as stated: a segment with at least one \<open>-\<close> is parsed and sized without
  error, and a last octet that cannot be parsed counts as 0. It fails for the field
  \<open>10.0.0-10.0.0.20\<close>, whose low address has three pieces only: \<open>minparts[3]\<close> panics.
  An octet too large for an \<open>int\<close> cannot be parsed either, and counts as the largest
  \<open>int\<close>, not as 0.
\<close>

theorem short_address_counterexample:
  "CHR ''-'' \<in> set ''10.0.0-10.0.0.20'' \<and>
   capacity_of_field ''10.0.0-10.0.0.20'' = Inl IndexOutOfRange \<and>
   Atoi ''99999999999999999999'' = (9223372036854775807, Some ErrRange) \<and>
   capacity_of_field ''0.0.0.0-0.0.0.99999999999999999999'' = Inr 9223372036854775807"
  by (simp add: capacity_of_field_def ranges_of_reply_def at_key_def atoi_defs Let_def)

text \<open>
  Claim C8, amended. When every segment of a non-empty field has a \<open>-\<close> and at least
  four pieces between dots on each of its first two sides, the capacity is computed
  without error, from the first two sides of each segment and the fourth piece of each
  side only: what follows a second \<open>-\<close> has no part in the range. A fourth piece that
  \<open>Atoi\<close> rejects with a syntax error counts as 0; that is so for the empty piece and
  for a piece of at most 19 bytes holding a byte that is neither a digit nor a sign.
\<close>

theorem shaped_ranges:
  "(f \<noteq> [] \<and> (\<forall>p \<in> set (Split f CHR '',''). shaped p) \<longrightarrow>
      capacity_of_field f =
        Inr (sum_list (map (\<lambda>p. span (mk_range p)) (Split f CHR '','')))) \<and>
   (CHR ''-'' \<notin> set a \<and> CHR ''-'' \<notin> set b \<longrightarrow>
      mk_range (a @ CHR ''-'' # b @ CHR ''-'' # x) = mk_range (a @ CHR ''-'' # b)) \<and>
   (snd (Atoi s) = Some ErrSyntax \<longrightarrow> fst (Atoi s) = 0) \<and>
   (s = [] \<or> length s \<le> 19 \<and>
      (\<exists>c \<in> set s. \<not> is_digit c \<and> c \<noteq> CHR ''+'' \<and> c \<noteq> CHR ''-'') \<longrightarrow>
      Atoi s = (0, Some ErrSyntax))"
proof (intro conjI impI)
  assume "f \<noteq> [] \<and> (\<forall>p \<in> set (Split f CHR '',''). shaped p)"
  then show "capacity_of_field f =
        Inr (sum_list (map (\<lambda>p. span (mk_range p)) (Split f CHR '','')))"
    by (intro capacity_of_field_ok) simp_all
next
  assume ab: "CHR ''-'' \<notin> set a \<and> CHR ''-'' \<notin> set b"
  have "Split (a @ CHR ''-'' # b @ CHR ''-'' # x) CHR ''-'' = a # b # Split x CHR ''-''"
    using ab by (simp add: Split_append)
  moreover have "Split (a @ CHR ''-'' # b) CHR ''-'' = [a, b]"
    using ab by (simp add: Split_append Split_no_sep)
  ultimately show "mk_range (a @ CHR ''-'' # b @ CHR ''-'' # x) = mk_range (a @ CHR ''-'' # b)"
    by (simp add: mk_range_def)
next
  assume "snd (Atoi s) = Some ErrSyntax"
  then show "fst (Atoi s) = 0" by (rule Atoi_syntax_zero)
next
  assume "s = [] \<or> length s \<le> 19 \<and>
      (\<exists>c \<in> set s. \<not> is_digit c \<and> c \<noteq> CHR ''+'' \<and> c \<noteq> CHR ''-'')"
  then show "Atoi s = (0, Some ErrSyntax)" by (rule Atoi_syntax)
qed

theorem shaped_ranges_witness:
  "capacity_of_field ''10.0.0.x-10.0.0.20-10.0.0.30'' = Inr 20 \<and>
   mk_range ''10.0.0.x-10.0.0.20-10.0.0.30'' = mk_range ''10.0.0.x-10.0.0.20'' \<and>
   Atoi ''x'' = (0, Some ErrSyntax)"
proof -
  have a: "''10.0.0.x-10.0.0.20-10.0.0.30'' \<noteq> [] \<and>
           (\<forall>p \<in> set (Split ''10.0.0.x-10.0.0.20-10.0.0.30'' CHR '',''). shaped p)"
    by (simp add: shaped_def four_parts_def mk_range_def)
  have b: "CHR ''-'' \<notin> set ''10.0.0.x'' \<and> CHR ''-'' \<notin> set ''10.0.0.20''"
    by simp
  have c: "''x'' = [] \<or> length ''x'' \<le> 19 \<and>
      (\<exists>c \<in> set ''x''. \<not> is_digit c \<and> c \<noteq> CHR ''+'' \<and> c \<noteq> CHR ''-'')"
    by (simp add: is_digit_def)
  have d: "sum_list (map (\<lambda>p. span (mk_range p))
             (Split ''10.0.0.x-10.0.0.20-10.0.0.30'' CHR '','')) = 20"
    by (simp add: span_def mk_range_def atoi_defs)
  show ?thesis
    using shaped_ranges [of "''10.0.0.x-10.0.0.20-10.0.0.30''" "''10.0.0.x''" "''10.0.0.20''"
        "''10.0.0.30''" "''x''"] a b c d
    by simp
qed

subsection \<open>The pool resolver\<close>

text \<open>
  Claim C5. When the lookup of a pool returns no record, and when the first record has an
  empty field \<open>ranges\<close>, \<open>getPoolRange\<close> returns the empty list of ranges without an
  error, and the size loop of \<open>main\<close> gives the empty list the capacity 0.
\<close>

theorem pool_not_found_is_empty:
  assumes "query r ''/ip/pool/print'' (pool_query pool) = (Inr res, r1)"
    and "res = [] \<or> at_key (res ! 0) ''ranges'' = []"
  shows "getPoolRange query r pool = (Inr [], r1) \<and> size_loop 0 [] = Inr 0"
  using assms by (auto simp: getPoolRange_def ranges_of_reply_def)

theorem pool_not_found_is_empty_witness:
  "getPoolRange router_D () ''guest-pool'' = (Inr [], ()) \<and>
   getPoolRange router_D () ''spare-pool'' = (Inr [], ()) \<and> size_loop 0 [] = Inr 0"
proof -
  have a: "router_D () ''/ip/pool/print'' (pool_query ''guest-pool'') = (Inr [], ())"
    by (simp add: router_D_def table_router_def pool_query_def)
  have b: "router_D () ''/ip/pool/print'' (pool_query ''spare-pool'')
        = (Inr [[''ranges'' \<mapsto> []], [''ranges'' \<mapsto> ''10.0.0.10-10.0.0.20'']], ())"
    by (simp add: router_D_def table_router_def pool_query_def)
  have c: "at_key ([[''ranges'' \<mapsto> []], [''ranges'' \<mapsto> ''10.0.0.10-10.0.0.20'']] ! 0) ''ranges'' = []"
    by (simp add: at_key_def)
  show ?thesis
    using pool_not_found_is_empty [of router_D "()" "''guest-pool''" "[]" "()"]
      pool_not_found_is_empty [of router_D "()" "''spare-pool''" _ "()"] a b c by simp
qed

text \<open>
  Claim C9. When the lookup of a pool returns more than one record, \<open>getPoolRange\<close>
  returns what it returns for the field \<open>ranges\<close> of the first record alone: the other
  records, and through them their ranges, have no part in the result.
\<close>

theorem first_record_only:
  assumes "query r ''/ip/pool/print'' (pool_query pool) = (Inr (sp # others), r1)"
  shows "getPoolRange query r pool = (ranges_of_reply [[''ranges'' \<mapsto> at_key sp ''ranges'']], r1)"
  using assms by (simp add: getPoolRange_def ranges_of_reply_def at_key_def)

theorem first_record_only_witness:
  "getPoolRange router_D () ''spare-pool'' = (ranges_of_reply [[''ranges'' \<mapsto> []]], ())"
proof -
  have b: "router_D () ''/ip/pool/print'' (pool_query ''spare-pool'')
        = (Inr ([''ranges'' \<mapsto> []] # [[''ranges'' \<mapsto> ''10.0.0.10-10.0.0.20'']]), ())"
    by (simp add: router_D_def table_router_def pool_query_def)
  show ?thesis
    using first_record_only [of router_D "()" "''spare-pool''" _ _ "()"] b
    by (simp add: at_key_def)
qed

subsection \<open>The loop over the servers\<close>

lemma servers_loop_no_pool:
  "\<forall>b \<in> set bs. at_key b ''address-pool'' = [] \<Longrightarrow>
   servers_loop query js r out pools bs = finish js out pools"
  by (induction bs) simp_all



lemma servers_loop_returned:
  "status (servers_loop query js r out pools bs) = Returned \<Longrightarrow>
   \<exists>ps. map Interface ps =
           map (\<lambda>b. at_key b ''interface'') (filter (\<lambda>b. at_key b ''address-pool'' \<noteq> []) bs) \<and>
        stdout (servers_loop query js r out pools bs) =
          (if js then out @ [Printf ''%s'' [B (Marshal_pools (pools @ ps))]]
           else out @ map row ps)"
proof (induction bs arbitrary: r out pools)
  case Nil
  then show ?case by (simp add: finish_def)
next
  case (Cons b bs)
  show ?case
  proof (cases "at_key b ''address-pool'' = []")
    case True
    then show ?thesis using Cons by simp
  next
    case False
    obtain pr r1 where gr: "getPoolRange query r (at_key b ''address-pool'') = (pr, r1)"
      by (cases "getPoolRange query r (at_key b ''address-pool'')")
    obtain ur r2 where gu: "getPoolUsed query r1 (at_key b ''address-pool'') = (ur, r2)"
      by (cases "getPoolUsed query r1 (at_key b ''address-pool'')")
    from Cons.prems False gr gu obtain pool sz used where
      ok: "pr = Inr pool" "size_loop 0 pool = Inr sz" "ur = Inr used"
      by (auto simp: Let_def jserror_def fatal_def panic_def
          split: sum.splits error.splits if_splits)
    define p where "p = \<lparr>Interface = at_key b ''interface'',
                          Used = of_nat (length used), Size = sz\<rparr>"
    have step: "servers_loop query js r out pools (b # bs) =
        servers_loop query js r2 (if js then out else out @ [row p]) (pools @ [p]) bs"
      using False gr gu ok by (simp add: Let_def p_def)
    from Cons.prems step
    have "status (servers_loop query js r2 (if js then out else out @ [row p]) (pools @ [p]) bs)
          = Returned" by simp
    from Cons.IH [OF this] obtain ps where
      ps: "map Interface ps =
           map (\<lambda>b. at_key b ''interface'') (filter (\<lambda>b. at_key b ''address-pool'' \<noteq> []) bs)"
      "stdout (servers_loop query js r2 (if js then out else out @ [row p]) (pools @ [p]) bs) =
          (if js then (if js then out else out @ [row p]) @ [Printf ''%s'' [B (Marshal_pools ((pools @ [p]) @ ps))]]
           else (if js then out else out @ [row p]) @ map row ps)"
      by blast
    have "map Interface (p # ps) =
           map (\<lambda>b. at_key b ''interface'') (filter (\<lambda>b. at_key b ''address-pool'' \<noteq> []) (b # bs))"
      using ps(1) False by (simp add: p_def)
    moreover have "stdout (servers_loop query js r out pools (b # bs)) =
          (if js then out @ [Printf ''%s'' [B (Marshal_pools (pools @ (p # ps)))]]
           else out @ map row (p # ps))"
      using ps(2) step by simp
    ultimately show ?thesis by blast
  qed
qed

lemma servers_loop_step:
  "servers_loop query js r out pools (b # bs) = servers_loop query js r out pools bs \<or>
   (stdout (servers_loop query js r out pools (b # bs)) = out \<and>
    status (servers_loop query js r out pools (b # bs)) \<noteq> Returned) \<or>
   (\<exists>p r2. servers_loop query js r out pools (b # bs) =
      servers_loop query js r2 (if js then out else out @ [row p]) (pools @ [p]) bs)"
proof (cases "at_key b ''address-pool'' = []")
  case True
  then show ?thesis by simp
next
  case False
  obtain pr r1 where gr: "getPoolRange query r (at_key b ''address-pool'') = (pr, r1)"
    by (cases "getPoolRange query r (at_key b ''address-pool'')")
  obtain ur r2 where gu: "getPoolUsed query r1 (at_key b ''address-pool'') = (ur, r2)"
    by (cases "getPoolUsed query r1 (at_key b ''address-pool'')")
  show ?thesis
  proof (cases pr)
    case (Inl e)
    with False gr show ?thesis
      by (cases e) (simp_all add: jserror_def fatal_def panic_def Let_def)
  next
    case pool: (Inr pool)
    show ?thesis
    proof (cases "size_loop 0 pool")
      case (Inl e)
      with False gr pool show ?thesis by (simp add: panic_def Let_def)
    next
      case sz: (Inr sz)
      show ?thesis
      proof (cases ur)
        case (Inl err)
        with False gr gu pool sz show ?thesis by (simp add: jserror_def fatal_def Let_def)
      next
        case (Inr used)
        with False gr gu pool sz
        have "servers_loop query js r out pools (b # bs) =
          servers_loop query js r2
            (if js then out else out @ [row \<lparr>Interface = at_key b ''interface'',
                   Used = of_nat (length used), Size = sz\<rparr>])
            (pools @ [\<lparr>Interface = at_key b ''interface'',
                   Used = of_nat (length used), Size = sz\<rparr>]) bs"
          by (simp add: Let_def)
        then show ?thesis by blast
      qed
    qed
  qed
qed

lemma servers_loop_text_rows:
  "\<exists>ps. stdout (servers_loop query False r out pools bs) = out @ map row ps \<and>
        length ps \<le> length bs"
proof (induction bs arbitrary: r out pools)
  case Nil
  show ?case by (simp add: finish_def)
next
  case (Cons b bs)
  from servers_loop_step [of query False r out pools b bs]
  consider (skip) "servers_loop query False r out pools (b # bs) =
                   servers_loop query False r out pools bs"
    | (halt) "stdout (servers_loop query False r out pools (b # bs)) = out"
    | (go) p r2 where "servers_loop query False r out pools (b # bs) =
                   servers_loop query False r2 (out @ [row p]) (pools @ [p]) bs"
    by auto
  then show ?case
  proof cases
    case skip
    from Cons.IH [of r out pools] obtain ps where
      "stdout (servers_loop query False r out pools bs) = out @ map row ps" "length ps \<le> length bs"
      by blast
    with skip have "stdout (servers_loop query False r out pools (b # bs)) = out @ map row ps \<and>
        length ps \<le> length (b # bs)" by simp
    then show ?thesis by blast
  next
    case halt
    then have "stdout (servers_loop query False r out pools (b # bs)) = out @ map row [] \<and>
        length ([] :: PoolStat list) \<le> length (b # bs)" by simp
    then show ?thesis by blast
  next
    case go
    from Cons.IH [of r2 "out @ [row p]" "pools @ [p]"] obtain ps where
      "stdout (servers_loop query False r2 (out @ [row p]) (pools @ [p]) bs)
         = (out @ [row p]) @ map row ps" "length ps \<le> length bs"
      by blast
    with go have "stdout (servers_loop query False r out pools (b # bs)) = out @ map row (p # ps) \<and>
        length (p # ps) \<le> length (b # bs)" by simp
    then show ?thesis by blast
  qed
qed

text \<open>
  Claim C10. In json mode, when the servers query succeeds and no server has a pool, so
  that no record is appended, the program prints the JSON literal \<open>null\<close>, not an empty
  list.
\<close>

theorem json_null_without_records:
  assumes "query r ''/ip/dhcp-server/getall'' servers_query = (Inr bs, r1)"
    and "\<forall>b \<in> set bs. at_key b ''address-pool'' = []"
  shows "main query True r = \<lparr>stdout = [Printf ''%s'' [B JNull]], stderr = [], status = Returned\<rparr>"
  using assms by (simp add: main_def servers_loop_no_pool finish_def Marshal_pools_def)

theorem json_null_without_records_witness:
  "main router_N True () = \<lparr>stdout = [Printf ''%s'' [B JNull]], stderr = [], status = Returned\<rparr>"
proof -
  have a: "router_N () ''/ip/dhcp-server/getall'' servers_query = (Inr [server ''ether2'' []], ())"
    by (simp add: router_N_def table_router_def)
  have b: "\<forall>b \<in> set [server ''ether2'' []]. at_key b ''address-pool'' = []"
    by (simp add: server_def at_key_def)
  show ?thesis
    using json_null_without_records [of router_N "()" _ "()"] a b by simp
qed

text \<open>
  Claim C4. In a run that returns, the records the program emits are one per server with
  a non-empty pool name, in the order of the reply of the servers query: their interfaces
  are the interfaces of these servers, and the servers without a pool give no record. The
  rows of text mode and the document of json mode are made of these records, and there
  are at most as many records as servers.
\<close>

theorem one_record_per_pooled_server:
  assumes "query r ''/ip/dhcp-server/getall'' servers_query = (Inr bs, r1)"
    and "status (main query js r) = Returned"
  shows "\<exists>ps. map Interface ps =
           map (\<lambda>b. at_key b ''interface'') (filter (\<lambda>b. at_key b ''address-pool'' \<noteq> []) bs) \<and>
         stdout (main query js r) =
           (if js then [Printf ''%s'' [B (Marshal_pools ps)]]
            else Println header_line # map row ps) \<and>
         length ps \<le> length bs"
proof -
  let ?out = "if js then [] else [Println header_line]"
  have m: "main query js r = servers_loop query js r1 ?out [] bs"
    using assms(1) by (simp add: main_def)
  with assms(2) have "status (servers_loop query js r1 ?out [] bs) = Returned" by simp
  from servers_loop_returned [OF this] obtain ps where
    ps: "map Interface ps =
           map (\<lambda>b. at_key b ''interface'') (filter (\<lambda>b. at_key b ''address-pool'' \<noteq> []) bs)"
    "stdout (servers_loop query js r1 ?out [] bs) =
          (if js then ?out @ [Printf ''%s'' [B (Marshal_pools ([] @ ps))]]
           else ?out @ map row ps)"
    by blast
  have "length ps = length (map Interface ps)" by simp
  also have "\<dots> \<le> length bs" unfolding ps(1) by simp
  finally have "length ps \<le> length bs" .
  moreover have "stdout (main query js r) =
           (if js then [Printf ''%s'' [B (Marshal_pools ps)]]
            else Println header_line # map row ps)"
    using ps(2) m by simp
  ultimately show ?thesis using ps(1) by blast
qed

theorem one_record_per_pooled_server_witness:
  "status (main router_D False ()) = Returned \<and>
   stdout (main router_D False ()) =
     [Println header_line, row \<lparr>Interface = ''ether3'', Used = 2, Size = 0\<rparr>] \<and>
   (\<exists>ps. map Interface ps = [''ether3''] \<and>
         stdout (main router_D False ()) = Println header_line # map row ps \<and>
         length ps \<le> 2)"
proof -
  have a: "router_D () ''/ip/dhcp-server/getall'' servers_query
             = (Inr [server ''ether2'' [], server ''ether3'' ''guest-pool''], ())"
    by (simp add: router_D_def table_router_def)
  have b: "main router_D False () =
     \<lparr>stdout = [Println header_line, row \<lparr>Interface = ''ether3'', Used = 2, Size = 0\<rparr>],
      stderr = [], status = Returned\<rparr>"
    by (simp add: router_D_def run_defs Let_def)
  have c: "status (main router_D False ()) = Returned" by (simp add: b)
  have d: "map (\<lambda>b. at_key b ''interface'')
              (filter (\<lambda>b. at_key b ''address-pool'' \<noteq> [])
                 [server ''ether2'' [], server ''ether3'' ''guest-pool'']) = [''ether3'']"
    by (simp add: server_def at_key_def)
  show ?thesis
    using one_record_per_pooled_server [of router_D "()" _ "()" False, OF a c] b c
    unfolding d by (simp add: numeral_2_eq_2)
qed

text \<open>
  Claim C6. When the two lookups of a server succeed, the record appended for it has as
  \<open>Used\<close> the number of records of the reply of the usage query: \<open>getPoolUsed\<close> returns
  one address per record, duplicates included, and \<open>main\<close> takes the length of that list.
  A slice has fewer than \<open>2 ^ 63\<close> elements, and then the \<open>int\<close> is that number.
\<close>

theorem used_is_reply_length:
  assumes "at_key pair ''address-pool'' = pn" and "pn \<noteq> []"
    and "getPoolRange query r pn = (Inr pool, r1)"
    and "size_loop 0 pool = Inr sz"
    and "query r1 ''/ip/pool/used/print'' (used_query pn) = (Inr res, r2)"
  shows "fst (getPoolUsed query r1 pn) = Inr (map (\<lambda>s. at_key s ''address'') res) \<and>
     servers_loop query js r out pools (pair # rest) =
       servers_loop query js r2
         (if js then out
          else out @ [row \<lparr>Interface = at_key pair ''interface'', Used = of_nat (length res), Size = sz\<rparr>])
         (pools @ [\<lparr>Interface = at_key pair ''interface'', Used = of_nat (length res), Size = sz\<rparr>])
         rest \<and>
     (length res < 2 ^ 63 \<longrightarrow> sint (of_nat (length res) :: go_int) = int (length res))"
proof -
  have u: "getPoolUsed query r1 pn = (Inr (map (\<lambda>s. at_key s ''address'') res), r2)"
    using assms(5) by (simp add: getPoolUsed_def)
  have "length res < 2 ^ 63 \<Longrightarrow> sint (of_nat (length res) :: go_int) = int (length res)"
    by (rule sint_go_int_of_nat)
  then show ?thesis
    using assms(1-4) u by (simp add: Let_def)
qed

theorem used_is_reply_length_witness:
  "fst (getPoolUsed router_D () ''guest-pool'') = Inr [''10.0.0.11'', ''10.0.0.11''] \<and>
   servers_loop router_D True () [] [] [server ''ether3'' ''guest-pool''] =
     finish True [] [\<lparr>Interface = ''ether3'', Used = 2, Size = 0\<rparr>] \<and>
   sint (2 :: go_int) = 2"
proof -
  have a: "at_key (server ''ether3'' ''guest-pool'') ''address-pool'' = ''guest-pool''"
    by (simp add: server_def at_key_def)
  have b: "''guest-pool'' \<noteq> []" by simp
  have c: "getPoolRange router_D () ''guest-pool'' = (Inr [], ())"
    by (simp add: router_D_def run_defs Let_def)
  have d: "size_loop 0 [] = Inr 0"
    by simp
  have e: "router_D () ''/ip/pool/used/print'' (used_query ''guest-pool'')
             = (Inr [[''address'' \<mapsto> ''10.0.0.11''], [''address'' \<mapsto> ''10.0.0.11'']], ())"
    by (simp add: router_D_def run_defs)
  show ?thesis
    using used_is_reply_length [OF a b c d e, of True "[]" "[]" "[]"]
    by (simp add: server_def at_key_def)
qed




subsection \<open>The text rows\<close>

text \<open>
  Claim C7, as stated: the Free column is size minus used in exact integer arithmetic. It
  fails where the subtraction of two \<open>int\<close> wraps around. With the router \<open>router_W\<close> the
  record has the size \<open>-9223372036854775807\<close> and two addresses in use (json mode shows
  both), and the Free column of text mode is \<open>9223372036854775807\<close>.
\<close>

theorem free_column_wraps_counterexample:
  "main router_W False () =
     \<lparr>stdout = [Println header_line,
                Printf row_format [S ''ether1'', D 2, D 9223372036854775807]],
      stderr = [], status = Returned\<rparr> \<and>
   main router_W True () =
     \<lparr>stdout = [Printf ''%s'' [B (JArray [JObject [(''Interface'', JString ''ether1''),
          (''Used'', JInt 2), (''Size'', JInt (- 9223372036854775807))]])]],
      stderr = [], status = Returned\<rparr> \<and>
   sint (9223372036854775807 :: go_int) \<noteq> - 9223372036854775807 - 2"
  by (simp add: router_W_def run_defs atoi_defs Let_def)

text \<open>
  Claim C7, amended. The Free column of a row is \<open>Size - Used\<close> in the 64-bit \<open>int\<close>
  arithmetic of Go. It is the exact difference of the two signed values whenever that
  difference lies between \<open>- 2 ^ 63\<close> and \<open>2 ^ 63 - 1\<close>, negative differences included.
  When the servers query succeeds, text mode prints the header line before the rows.
\<close>

theorem free_column:
  "row p = Printf row_format [S (Interface p), D (Used p), D (Size p - Used p)] \<and>
   (- (2 ^ 63) \<le> sint (Size p) - sint (Used p) \<and> sint (Size p) - sint (Used p) < 2 ^ 63 \<longrightarrow>
      sint (Size p - Used p) = sint (Size p) - sint (Used p)) \<and>
   (fst (query r ''/ip/dhcp-server/getall'' servers_query) = Inr bs \<longrightarrow>
      (\<exists>ps. stdout (main query False r) = Println header_line # map row ps))"
proof -
  have "\<exists>ps. stdout (main query False r) = Println header_line # map row ps"
    if h: "fst (query r ''/ip/dhcp-server/getall'' servers_query) = Inr bs"
  proof -
    obtain r1 where "query r ''/ip/dhcp-server/getall'' servers_query = (Inr bs, r1)"
      using h by (cases "query r ''/ip/dhcp-server/getall'' servers_query") auto
    then have "main query False r = servers_loop query False r1 [Println header_line] [] bs"
      by (simp add: main_def)
    with servers_loop_text_rows [of query r1 "[Println header_line]" "[]" bs]
    show ?thesis by auto
  qed
  then show ?thesis
    by (simp add: row_def sint_go_int_minus)
qed

theorem free_column_witness:
  "row \<lparr>Interface = ''ether3'', Used = 2, Size = 0\<rparr>
     = Printf row_format [S ''ether3'', D 2, D (- 2)] \<and>
   sint (- 2 :: go_int) = - 2 \<and>
   stdout (main router_D False ()) =
     [Println header_line, Printf row_format [S ''ether3'', D 2, D (- 2)]]"
proof -
  have a: "fst (router_D () ''/ip/dhcp-server/getall'' servers_query)
             = Inr [server ''ether2'' [], server ''ether3'' ''guest-pool'']"
    by (simp add: router_D_def table_router_def)
  have b: "main router_D False () =
     \<lparr>stdout = [Println header_line, Printf row_format [S ''ether3'', D 2, D (- 2)]],
      stderr = [], status = Returned\<rparr>"
    by (simp add: router_D_def run_defs Let_def)
  show ?thesis
    using free_column [of "\<lparr>Interface = ''ether3'', Used = 2, Size = 0\<rparr>" router_D "()"] a b
    by simp
qed


end
